theory Spec2Isabelle
  imports Main
begin

section \<open>Python strings\<close>

text \<open>
  A Python \<open>str\<close> is modelled as a \<open>string\<close>, a list of 8-bit characters, so the model
  covers the texts whose code points are below 256. \<open>isspace\<close> is \<open>str.isspace\<close> on one
  character of that range: tab, line feed, vertical tab, form feed, carriage return, the
  four separators 0x1C to 0x1F, the space, NEL (0x85) and the no-break space (0xA0). The
  same class is what \<open>str.split()\<close>, \<open>str.strip()\<close> and the pattern \<open>\s\<close> of \<open>re\<close> use.
\<close>

definition isspace :: "char \<Rightarrow> bool" where
  "isspace c = (of_char c \<in> set [9, 10, 11, 12, 13, 28, 29, 30, 31, 32, 133, 160 :: nat])"

text \<open>
  \<open>text.split()\<close> with no argument: the maximal runs of characters that are not
  whitespace, in order; leading and trailing whitespace gives no empty word.
\<close>

function py_split :: "string \<Rightarrow> string list" where
  "py_split s =
     (case dropWhile isspace s of
        [] \<Rightarrow> []
      | c # cs \<Rightarrow> (c # takeWhile (\<lambda>x. \<not> isspace x) cs)
                 # py_split (dropWhile (\<lambda>x. \<not> isspace x) cs))"
  by pat_completeness auto
termination
proof (relation "measure length")
  show "wf (measure length)" by simp
next
  fix s :: string and c cs
  assume d: "dropWhile isspace s = c # cs"
  have "length (dropWhile (\<lambda>x. \<not> isspace x) cs) \<le> length cs"
    by (rule length_dropWhile_le)
  moreover have "length (c # cs) \<le> length s"
    unfolding d [symmetric] by (rule length_dropWhile_le)
  ultimately show "(dropWhile (\<lambda>x. \<not> isspace x) cs, s) \<in> measure length"
    by simp
qed

declare py_split.simps [simp del]

text \<open>\<open>sep.join(words)\<close>.\<close>

fun py_join :: "string \<Rightarrow> string list \<Rightarrow> string" where
  "py_join sep [] = []"
| "py_join sep [w] = w"
| "py_join sep (w # v # ws) = w @ sep @ py_join sep (v # ws)"

text \<open>\<open>s.strip()\<close>: leading and trailing whitespace removed.\<close>

definition py_strip :: "string \<Rightarrow> string" where
  "py_strip s = rev (dropWhile isspace (rev (dropWhile isspace s)))"

text \<open>\<open>s.startswith(p)\<close> and \<open>s.endswith(p)\<close>, both case-sensitive comparisons of characters.\<close>

definition startswith :: "string \<Rightarrow> string \<Rightarrow> bool" where
  "startswith s p = (take (length p) s = p)"

definition endswith :: "string \<Rightarrow> string \<Rightarrow> bool" where
  "endswith s p = (length p \<le> length s \<and> drop (length s - length p) s = p)"

section \<open>Text normalisation\<close>

text \<open>
  \<^verbatim>\<open>
  def clean_text(text: str) -> str:
      try:
          return " ".join(text.split())
      except Exception as e:
          return text if text else ""
  \<close>
  On a \<open>str\<close> neither \<open>split\<close> nor \<open>join\<close> raises, so the handler is never entered and the
  function is the first branch.
\<close>

definition clean_text :: "string \<Rightarrow> string" where
  "clean_text text = py_join '' '' (py_split text)"

definition word_ok :: "string \<Rightarrow> bool" where
  "word_ok w = (w \<noteq> [] \<and> list_all (\<lambda>c. \<not> isspace c) w)"

text \<open>
  What the specification says of normalisation, read by the letter, as a second function
  to compare \<open>clean_text\<close> with: every run of whitespace becomes one space, wherever the
  run stands. A whitespace character followed by another one is dropped, the last one of
  a run becomes the space, every other character stays.
\<close>

fun collapse_runs :: "string \<Rightarrow> string" where
  "collapse_runs [] = []"
| "collapse_runs [c] = (if isspace c then '' '' else [c])"
| "collapse_runs (c # d # cs) =
     (if isspace c then
        (if isspace d then collapse_runs (d # cs) else CHR '' '' # collapse_runs (d # cs))
      else c # collapse_runs (d # cs))"

section \<open>Exceptions, dictionaries and the response envelope\<close>

text \<open>
  The exceptions the request handler tells apart: FastAPI's \<open>HTTPException\<close> with its
  status code and detail, \<open>asyncio.TimeoutError\<close>, and any other \<open>Exception\<close>; the last two
  carry the text \<open>str(e)\<close> gives for them.
\<close>

datatype exn = HTTPException nat string | TimeoutError string | Error string

text \<open>
  \<open>Dict[str, Any]\<close>: an association list from keys to values. The code builds values that
  are strings and formats the value under one key; every other JSON value (number,
  boolean, null, list, nested object) stays abstract in \<open>'a\<close>.
\<close>

datatype 'a py_any = PyStr string | PyOther 'a

type_synonym 'a dict = "(string \<times> 'a py_any) list"

definition dict_contains :: "string \<Rightarrow> 'a dict \<Rightarrow> bool" where
  "dict_contains k d = (k \<in> set (map fst d))"

definition dict_len :: "'a dict \<Rightarrow> nat" where
  "dict_len d = length (remdups (map fst d))"

text \<open>
  \<^verbatim>\<open>
  class LLMResponse(BaseModel):
      success: bool
      data: Dict[str, Any]
      error: Optional[str] = None
  \<close>
\<close>

record 'a LLMResponse =
  success :: bool
  data :: "'a dict"
  error :: "string option"

section \<open>The world of one request\<close>

text \<open>
  What the libraries and services answer during one request, each call either raising
  (\<open>Inl\<close>, or \<open>Some\<close> for a call without a result) or returning:
  \<^item> \<open>file_read\<close>: \<open>await file.read()\<close>, the uploaded bytes;
  \<^item> \<open>named_temporary_file\<close>: \<open>tempfile.NamedTemporaryFile(delete=False, suffix='.pdf')\<close>,
    the name of the file it creates;
  \<^item> \<open>file_write\<close>: \<open>temp_file.write(content)\<close>;
  \<^item> \<open>file_close\<close>: closing the file when the \<open>with\<close> block is left;
  \<^item> \<open>convert_from_path\<close>: the rasteriser of \<open>pdf2image\<close>, the page images of the file;
  \<^item> \<open>image_to_string\<close>: \<open>pytesseract.image_to_string\<close>, the text of one page image;
  \<^item> \<open>generate_content\<close>: \<open>client.models.generate_content(...)\<close> followed by \<open>.text\<close>, which
    is a string or \<open>None\<close>;
  \<^item> \<open>json_loads\<close>: \<open>json.loads\<close> on a text that begins with an opening brace, as both
    call sites pass it: the dictionary parsed, or the message of the decoding error;
  \<^item> \<open>str_http_exception\<close>: \<open>str(e)\<close> of an \<open>HTTPException\<close>, which depends on the version of
    the framework;
  \<^item> \<open>str_other\<close>: \<open>str(v)\<close> of a JSON value that is not a string.
\<close>

record ('img, 'a) world =
  file_read :: "exn + string"
  named_temporary_file :: "exn + string"
  file_write :: "string \<Rightarrow> exn option"
  file_close :: "exn option"
  convert_from_path :: "string \<Rightarrow> exn + 'img list"
  image_to_string :: "'img \<Rightarrow> exn + string"
  generate_content :: "string \<Rightarrow> exn + string option"
  json_loads :: "string \<Rightarrow> string + 'a dict"
  str_http_exception :: "nat \<Rightarrow> string \<Rightarrow> string"
  str_other :: "'a \<Rightarrow> string"

text \<open>
  What the request changes and what is observed of it: the files that exist, the paths
  handed to the rasteriser, and the prompts sent to the model, both in call order.
\<close>

record state =
  files :: "string set"
  rasterized :: "string list"
  prompts :: "string list"

fun str_exn :: "('img, 'a) world \<Rightarrow> exn \<Rightarrow> string" where
  "str_exn w (HTTPException status detail) = str_http_exception w status detail"
| "str_exn w (TimeoutError msg) = msg"
| "str_exn w (Error msg) = msg"

fun format_value :: "('img, 'a) world \<Rightarrow> 'a py_any \<Rightarrow> string" where
  "format_value w (PyStr s) = s"
| "format_value w (PyOther v) = str_other w v"

section \<open>OCR\<close>

text \<open>
  \<^verbatim>\<open>
  for img in images:
      ocr_text += pytesseract.image_to_string(img) + "\n"
  \<close>
\<close>

fun ocr_loop :: "('img, 'a) world \<Rightarrow> 'img list \<Rightarrow> string \<Rightarrow> exn + string" where
  "ocr_loop w [] ocr_text = Inr ocr_text"
| "ocr_loop w (img # images) ocr_text =
     (case image_to_string w img of
        Inl e \<Rightarrow> Inl e
      | Inr page \<Rightarrow> ocr_loop w images (ocr_text @ page @ ''\<newline>''))"

text \<open>
  \<^verbatim>\<open>
  def extract_text_from_pdf_ocr(pdf_path: str) -> str:
      try:
          images = convert_from_path(pdf_path, dpi=300)
          ocr_text = ""
          for img in images: ...
          return clean_text(ocr_text)
      except Exception as e:
          raise HTTPException(status_code=500, detail=f"OCR extraction failed: {str(e)}")
  \<close>
\<close>

definition extract_text_from_pdf_ocr ::
  "('img, 'a) world \<Rightarrow> string \<Rightarrow> state \<Rightarrow> (exn + string) \<times> state" where
  "extract_text_from_pdf_ocr w pdf_path st =
     (let st' = st\<lparr>rasterized := rasterized st @ [pdf_path]\<rparr> in
      case (case convert_from_path w pdf_path of
              Inl e \<Rightarrow> Inl e
            | Inr images \<Rightarrow> ocr_loop w images []) of
        Inl e \<Rightarrow> (Inl (HTTPException 500 (''OCR extraction failed: '' @ str_exn w e)), st')
      | Inr ocr_text \<Rightarrow> (Inr (clean_text ocr_text), st'))"

section \<open>The search for a fenced JSON object\<close>

text \<open>
  \<^verbatim>\<open>re.search(r'```(?:json)?\s*(\{.*?\})\s*```', response_text, re.DOTALL)\<close>
  as the backtracking matcher runs it. \<open>lazy_object\<close> is the part \<open>.*?\})\s*```\<close> after the
  opening brace: the lazy \<open>.*?\<close> grows one character at a time (any character, with
  \<open>DOTALL\<close>) until a closing brace is followed by whitespace and the closing fence; \<open>acc\<close> is
  the text of the group so far, reversed. A greedy \<open>\s*\<close> has one way to succeed before a
  character that is not whitespace: taking the whole run.
\<close>

fun lazy_object :: "string \<Rightarrow> string \<Rightarrow> string option" where
  "lazy_object acc [] = None"
| "lazy_object acc (c # cs) =
     (if c = CHR ''}'' \<and> startswith (dropWhile isspace cs) ''```''
      then Some (rev (c # acc))
      else lazy_object (c # acc) cs)"

text \<open>\<open>\s*(\{.*?\})\s*```\<close>, after the tag.\<close>

definition match_object :: "string \<Rightarrow> string option" where
  "match_object s =
     (case dropWhile isspace s of
        [] \<Rightarrow> None
      | c # cs \<Rightarrow> if c = CHR ''{'' then lazy_object [c] cs else None)"

text \<open>
  The whole pattern at the start of \<open>s\<close>; the optional group \<open>(?:json)?\<close> is tried with the
  tag first and without it when that fails.
\<close>

definition match_here :: "string \<Rightarrow> string option" where
  "match_here s =
     (if startswith s ''```'' then
        (let r = drop 3 s in
         case (if startswith r ''json'' then match_object (drop 4 r) else None) of
           Some g \<Rightarrow> Some g
         | None \<Rightarrow> match_object r)
      else None)"

text \<open>\<open>re.search\<close>: the match at the leftmost position that has one; the result is group 1.\<close>

fun re_search :: "string \<Rightarrow> string option" where
  "re_search [] = match_here []"
| "re_search (c # cs) =
     (case match_here (c # cs) of
        Some g \<Rightarrow> Some g
      | None \<Rightarrow> re_search cs)"

text \<open>
  What the pattern describes, in words: after the text \<open>pre\<close>, an opening fence, the tag
  \<open>json\<close> or nothing, whitespace, the text \<open>g\<close> from an opening to a closing brace with
  any characters between them, line feeds too, whitespace, and a closing fence. \<open>fenced\<close>
  says that \<open>s\<close> holds such a block somewhere.
\<close>

definition fenced_at :: "string \<Rightarrow> string \<Rightarrow> string \<Rightarrow> bool" where
  "fenced_at pre s g = (\<exists>tag ws1 mid ws2 post.
     s = pre @ ''```'' @ tag @ ws1 @ g @ ws2 @ ''```'' @ post
     \<and> (tag = [] \<or> tag = ''json'')
     \<and> list_all isspace ws1 \<and> list_all isspace ws2
     \<and> g = ''{'' @ mid @ ''}'')"

definition fenced :: "string \<Rightarrow> string \<Rightarrow> bool" where
  "fenced s g = (\<exists>pre. fenced_at pre s g)"

section \<open>The call to the model and the response parser\<close>

definition default_prompt :: string where
  \<open>default_prompt = concat [
     ''You are a PDF form data extraction assistant. Analyze the provided text from a scanned form and extract all relevant fields and their values into a structured JSON object with the actual data values.\<newline>'',
     ''\<newline>'',
     ''Rules:\<newline>'',
     ''1. Extract all field labels and their corresponding values from the form\<newline>'',
     ''2. Group related fields into nested objects (e.g., "applicantDetails", "contactInfo", "serviceRequest")\<newline>'',
     ''3. Use descriptive field names in camelCase\<newline>'',
     ''4. For checkboxes/radio buttons, use boolean values (true/false) or the selected option as a string\<newline>'',
     ''5. Extract dates as strings in the format found in the document\<newline>'',
     ''6. Extract numbers as numbers (not strings) when they represent quantities, amounts, etc.\<newline>'',
     ''7. Return ONLY the actual data values extracted from the form, NOT a JSON Schema\<newline>'',
     ''8. Create a hierarchical structure that reflects the form's organization\<newline>'',
     ''9. Do not hallucinate data - only extract what is clearly present in the text\<newline>'',
     ''10. If a field is empty or unclear, you can omit it or set it to null\<newline>'',
     ''\<newline>'',
     ''Example format for extracted data (NOT a schema):\<newline>'',
     ''{\<newline>'',
     ''  "formType": "ATM Card Application",\<newline>'',
     ''  "applicantDetails": {\<newline>'',
     ''    "fullName": "Ramaiah M",\<newline>'',
     ''    "dateOfBirth": "1985-06-12",\<newline>'',
     ''    "nationalId": "123456789"\<newline>'',
     ''  },\<newline>'',
     ''  "contactInfo": {\<newline>'',
     ''    "phoneNumber": "+1234567890",\<newline>'',
     ''    "email": "ramaiahm@example.com",\<newline>'',
     ''    "address": "123 Main Street"\<newline>'',
     ''  },\<newline>'',
     ''  "serviceRequest": {\<newline>'',
     ''    "requestATMCard": true,\<newline>'',
     ''    "requestMobileBanking": false,\<newline>'',
     ''    "requestSMS": true\<newline>'',
     ''  }\<newline>'',
     ''}\<newline>'',
     ''\<newline>'',
     ''Now extract the actual field values from this text:\<newline>'',
     ''\<newline>'']\<close>

text \<open>
  Lines 128 to 142, the body of the \<open>try\<close> once the response text is there:
  \<^verbatim>\<open>
  response_text = response.text.strip()
  if response_text.startswith('{'):
      extracted_data = json.loads(response_text)
  else:
      json_match = re.search(..., response_text, re.DOTALL)
      if json_match:
          extracted_data = json.loads(json_match.group(1))
      else:
          extracted_data = {"rawResponse": response_text}
  \<close>
  \<open>Inl\<close> is the message of the exception \<open>json.loads\<close> raises.
\<close>

definition parse_response :: "('img, 'a) world \<Rightarrow> string \<Rightarrow> string + 'a dict" where
  "parse_response w text =
     (let response_text = py_strip text in
      if startswith response_text ''{'' then json_loads w response_text
      else (case re_search response_text of
              Some g \<Rightarrow> json_loads w g
            | None \<Rightarrow> Inr [(''rawResponse'', PyStr response_text)]))"

text \<open>
  The \<open>try\<close> block of \<open>extract_structured_data_with_gemini\<close>: the call, \<open>.text.strip()\<close>
  (an \<open>AttributeError\<close> when the text is \<open>None\<close>) and the parser.
\<close>

definition none_has_no_strip :: string where
  "none_has_no_strip =
     CHR 0x27 # ''NoneType'' @ CHR 0x27 # '' object has no attribute '' @ CHR 0x27 # ''strip'' @ [CHR 0x27]"

definition gemini_try :: "('img, 'a) world \<Rightarrow> string \<Rightarrow> exn + 'a dict" where
  "gemini_try w full_prompt =
     (case generate_content w full_prompt of
        Inl e \<Rightarrow> Inl e
      | Inr None \<Rightarrow> Inl (Error none_has_no_strip)
      | Inr (Some text) \<Rightarrow>
          (case parse_response w text of
             Inl msg \<Rightarrow> Inl (Error msg)
           | Inr extracted_data \<Rightarrow> Inr extracted_data))"

text \<open>
  \<^verbatim>\<open>
  except asyncio.TimeoutError:
      return {"error": "API timeout - request took too long"}
  except Exception as e:
      return {"error": str(e)}
  \<close>
\<close>

fun gemini_except :: "('img, 'a) world \<Rightarrow> exn \<Rightarrow> 'a dict" where
  "gemini_except w (TimeoutError msg) = [(''error'', PyStr ''API timeout - request took too long'')]"
| "gemini_except w e = [(''error'', PyStr (str_exn w e))]"

text \<open>
  \<^verbatim>\<open>
  prompt = custom_prompt if custom_prompt else default_prompt
  full_prompt = f"{prompt}\n\n{text[:15000]}"
  \<close>
  An empty custom prompt is falsy and gives the default one.
\<close>

definition build_prompt :: "string option \<Rightarrow> string \<Rightarrow> string" where
  "build_prompt custom_prompt text =
     (let prompt = (case custom_prompt of
                      None \<Rightarrow> default_prompt
                    | Some p \<Rightarrow> if p = [] then default_prompt else p)
      in prompt @ ''\<newline>\<newline>'' @ take 15000 text)"

definition extract_structured_data_with_gemini ::
  "('img, 'a) world \<Rightarrow> string \<Rightarrow> string option \<Rightarrow> state \<Rightarrow> 'a dict \<times> state" where
  "extract_structured_data_with_gemini w text custom_prompt st =
     (let full_prompt = build_prompt custom_prompt text;
          st' = st\<lparr>prompts := prompts st @ [full_prompt]\<rparr>
      in (case gemini_try w full_prompt of
            Inl e \<Rightarrow> gemini_except w e
          | Inr extracted_data \<Rightarrow> extracted_data, st'))"

section \<open>The request handler\<close>

text \<open>
  The two local variables the \<open>finally\<close> block reads: whether \<open>temp_file\<close> is bound to a
  file object (it starts as \<open>None\<close>, and a file object is truthy, open or closed), and
  \<open>temp_file_path\<close>, which has no value until line 188 assigns it.
\<close>

record locals =
  temp_file :: bool
  temp_file_path :: "string option"

text \<open>
  \<^verbatim>\<open>
  with tempfile.NamedTemporaryFile(delete=False, suffix='.pdf') as temp_file:
      content = await file.read()
      temp_file.write(content)
      temp_file_path = temp_file.name
  \<close>
  Leaving the block closes the file, also when the block raised; an exception of the
  close replaces the one under way. With \<open>delete=False\<close> closing removes nothing.
\<close>

definition save_upload ::
  "('img, 'a) world \<Rightarrow> state \<Rightarrow> (exn + string) \<times> locals \<times> state" where
  "save_upload w st =
     (case named_temporary_file w of
        Inl e \<Rightarrow> (Inl e, \<lparr>temp_file = False, temp_file_path = None\<rparr>, st)
      | Inr name \<Rightarrow>
          (let st' = st\<lparr>files := insert name (files st)\<rparr>;
               block = (case file_read w of
                          Inl e \<Rightarrow> (Inl e, None)
                        | Inr content \<Rightarrow>
                            (case file_write w content of
                               Some e \<Rightarrow> (Inl e, None)
                             | None \<Rightarrow> (Inr name, Some name)))
           in (case file_close w of
                 Some e \<Rightarrow> Inl e
               | None \<Rightarrow> fst block,
               \<lparr>temp_file = True, temp_file_path = snd block\<rparr>, st')))"

text \<open>
  \<^verbatim>\<open>structured_data['error']\<close>: the first binding of the key, a \<open>KeyError\<close> without one.
\<close>

definition dict_get :: "'a dict \<Rightarrow> string \<Rightarrow> exn + 'a py_any" where
  "dict_get d k =
     (case map_of d k of
        None \<Rightarrow> Inl (Error (CHR 0x27 # k @ [CHR 0x27]))
      | Some v \<Rightarrow> Inr v)"

text \<open>
  Lines 192 to 220: OCR, the short-circuit on too little text, the call to the model and
  the envelope. The calls to \<open>print\<close> are left out.
\<close>

definition process_pdf ::
  "('img, 'a) world \<Rightarrow> string \<Rightarrow> state \<Rightarrow> (exn + 'a LLMResponse) \<times> state" where
  "process_pdf w temp_path st =
     (case extract_text_from_pdf_ocr w temp_path st of
        (Inl e, st1) \<Rightarrow> (Inl e, st1)
      | (Inr extracted_text, st1) \<Rightarrow>
          if extracted_text = [] \<or> length (py_strip extracted_text) < 10 then
            (Inr \<lparr>success = False, data = [],
                  error = Some ''No text could be extracted from the PDF.''\<rparr>, st1)
          else
            (case extract_structured_data_with_gemini w extracted_text None st1 of
               (structured_data, st2) \<Rightarrow>
                 if dict_contains ''error'' structured_data \<and> dict_len structured_data = 1 then
                   (case dict_get structured_data ''error'' of
                      Inl e \<Rightarrow> (Inl e, st2)
                    | Inr v \<Rightarrow>
                        (Inr \<lparr>success = False, data = [],
                              error = Some (''AI extraction failed: '' @ format_value w v)\<rparr>, st2))
                 else
                   (Inr \<lparr>success = True, data = structured_data, error = None\<rparr>, st2)))"

text \<open>The \<open>try\<close> block of \<open>extract_pdf\<close>, lines 184 to 220.\<close>

definition extract_pdf_try ::
  "('img, 'a) world \<Rightarrow> state \<Rightarrow> (exn + 'a LLMResponse) \<times> locals \<times> state" where
  "extract_pdf_try w st =
     (case save_upload w st of
        (Inl e, vars, st1) \<Rightarrow> (Inl e, vars, st1)
      | (Inr temp_path, vars, st1) \<Rightarrow>
          (case process_pdf w temp_path st1 of
             (r, st2) \<Rightarrow> (r, vars, st2)))"

text \<open>
  \<^verbatim>\<open>
  except Exception as e:
      return LLMResponse(success=False, data={}, error=f"Processing failed: {str(e)}")
  \<close>
\<close>

definition extract_pdf_except :: "('img, 'a) world \<Rightarrow> exn \<Rightarrow> 'a LLMResponse" where
  "extract_pdf_except w e =
     \<lparr>success = False, data = [], error = Some (''Processing failed: '' @ str_exn w e)\<rparr>"

text \<open>
  \<open>os.unlink(path)\<close> removes a file that exists and raises \<open>FileNotFoundError\<close> for one that
  does not.
\<close>

definition os_unlink :: "string \<Rightarrow> state \<Rightarrow> exn + state" where
  "os_unlink path st =
     (if path \<in> files st then Inr (st\<lparr>files := files st - {path}\<rparr>)
      else Inl (Error (''[Errno 2] No such file or directory: '' @ CHR 0x27 # path @ [CHR 0x27])))"

text \<open>
  \<^verbatim>\<open>
  finally:
      if temp_file:
          try:
              os.unlink(temp_file_path)
          except:
              pass
  \<close>
  Reading \<open>temp_file_path\<close> before line 188 assigned it raises \<open>UnboundLocalError\<close>, which
  the bare \<open>except\<close> swallows like any error of \<open>os.unlink\<close>.
\<close>

definition extract_pdf_finally :: "locals \<Rightarrow> state \<Rightarrow> state" where
  "extract_pdf_finally vars st =
     (if temp_file vars then
        (case temp_file_path vars of
           None \<Rightarrow> st
         | Some path \<Rightarrow> (case os_unlink path st of Inl e \<Rightarrow> st | Inr st' \<Rightarrow> st'))
      else st)"

text \<open>
  \<open>POST /extract-pdf\<close>: the handler returns an envelope (\<open>Inr\<close>) or raises (\<open>Inl\<close>).
  \<^verbatim>\<open>
  if not file.filename.endswith('.pdf'):
      raise HTTPException(status_code=400, detail="Only PDF files are supported")
  temp_file = None
  try: ... except Exception as e: ... finally: ...
  \<close>
\<close>

definition extract_pdf ::
  "('img, 'a) world \<Rightarrow> string \<Rightarrow> state \<Rightarrow> (exn + 'a LLMResponse) \<times> state" where
  "extract_pdf w filename st =
     (if \<not> endswith filename ''.pdf'' then
        (Inl (HTTPException 400 ''Only PDF files are supported''), st)
      else
        (case extract_pdf_try w st of
           (r, vars, st1) \<Rightarrow>
             (Inr (case r of Inl e \<Rightarrow> extract_pdf_except w e | Inr response \<Rightarrow> response),
              extract_pdf_finally vars st1)))"

text \<open>
  What the framework answers: status 200 with the envelope as body when the handler
  returns, the status of an \<open>HTTPException\<close> the handler raises, 500 for any other exception.
\<close>

fun http_status :: "exn + 'r \<Rightarrow> nat" where
  "http_status (Inr response) = 200"
| "http_status (Inl (HTTPException status detail)) = status"
| "http_status (Inl e) = 500"

section \<open>A concrete world\<close>

text \<open>
  A world to run the handler in: a page image is the text OCR reads from it, the upload
  and the file system work, and an \<open>HTTPException\<close> prints as \<open>status: detail\<close>, the way
  current versions of the framework do. The pages, the answer of the model and the JSON
  decoder are the arguments.
\<close>

definition status_and_detail :: "nat \<Rightarrow> string \<Rightarrow> string" where
  "status_and_detail status detail =
     map (\<lambda>k. ''0123456789'' ! (status div k mod 10)) [100, 10, 1] @ '': '' @ detail"

definition example_world ::
  "(exn + string list) \<Rightarrow> (exn + string option) \<Rightarrow> (string \<Rightarrow> string + unit dict)
     \<Rightarrow> (string, unit) world" where
  "example_world pages answer loads =
     \<lparr>file_read = Inr ''%PDF-1.4'',
      named_temporary_file = Inr ''/tmp/tmpk3x9.pdf'',
      file_write = (\<lambda>content. None),
      file_close = None,
      convert_from_path = (\<lambda>path. pages),
      image_to_string = Inr,
      generate_content = (\<lambda>prompt. answer),
      json_loads = loads,
      str_http_exception = status_and_detail,
      str_other = (\<lambda>v. ''None'')\<rparr>"

definition idle :: state where
  "idle = \<lparr>files = {}, rasterized = [], prompts = []\<rparr>"

text \<open>
  The OCR text of a scanned form of two pages.
\<close>

definition scanned_form :: "exn + string list" where
  "scanned_form = Inr [''Name: Jane Doe\<newline>DOB: 1990-01-01'', ''Phone: 555-1234'']"

section \<open>Properties of normalisation\<close>

lemma isspace_space [simp]: "isspace CHR '' ''"
  by (simp add: isspace_def)

lemma py_split_Nil [simp]: "py_split [] = []"
  by (simp add: py_split.simps)

lemma py_split_words_ok: "list_all word_ok (py_split s)"
proof (induction s rule: py_split.induct)
  case (1 s)
  show ?case
  proof (cases "dropWhile isspace s")
    case Nil
    show ?thesis
      by (subst py_split.simps) (simp only: Nil list.case list.pred_inject)
  next
    case (Cons c cs)
    have "dropWhile isspace s \<noteq> []"
      by (simp only: Cons) simp
    then have "\<not> isspace (hd (dropWhile isspace s))"
      by (rule hd_dropWhile)
    then have c: "\<not> isspace c"
      unfolding Cons by simp
    have t: "list_all (\<lambda>c. \<not> isspace c) (takeWhile (\<lambda>x. \<not> isspace x) cs)"
      by (auto simp: list_all_iff dest: set_takeWhileD)
    have "list_all word_ok (py_split (dropWhile (\<lambda>x. \<not> isspace x) cs))"
      by (rule "1.IH" [OF Cons])
    with c t have "list_all word_ok
        ((c # takeWhile (\<lambda>x. \<not> isspace x) cs) # py_split (dropWhile (\<lambda>x. \<not> isspace x) cs))"
      by (simp add: word_ok_def)
    then show ?thesis
      by (subst py_split.simps) (simp only: Cons list.case)
  qed
qed

lemma py_split_word_then_space:
  assumes "word_ok w"
  shows "py_split (w @ CHR '' '' # r) = w # py_split r"
proof -
  obtain c cs where w: "w = c # cs" and c: "\<not> isspace c"
    and cs: "list_all (\<lambda>c. \<not> isspace c) cs"
    using assms by (cases w) (auto simp: word_ok_def)
  have all: "\<forall>x\<in>set cs. \<not> isspace x"
    using cs by (simp add: list_all_iff)
  have t: "takeWhile (\<lambda>x. \<not> isspace x) (cs @ CHR '' '' # r) = cs"
    using all by simp
  have d: "dropWhile (\<lambda>x. \<not> isspace x) (cs @ CHR '' '' # r) = CHR '' '' # r"
    using all by simp
  have "py_split (CHR '' '' # r) = py_split r"
    by (simp add: py_split.simps [of "CHR '' '' # r"] py_split.simps [of r])
  then show ?thesis
    using c t d by (simp add: w py_split.simps [of "c # cs @ CHR '' '' # r"])
qed

lemma py_split_single_word:
  assumes "word_ok w"
  shows "py_split w = [w]"
proof -
  obtain c cs where w: "w = c # cs" and c: "\<not> isspace c"
    and cs: "list_all (\<lambda>c. \<not> isspace c) cs"
    using assms by (cases w) (auto simp: word_ok_def)
  have all: "\<forall>x\<in>set cs. \<not> isspace x"
    using cs by (simp add: list_all_iff)
  then have t: "takeWhile (\<lambda>x. \<not> isspace x) cs = cs"
    and d: "dropWhile (\<lambda>x. \<not> isspace x) cs = []"
    by simp_all
  show ?thesis
    unfolding w by (subst py_split.simps) (simp add: c t d)
qed

lemma py_split_join:
  "list_all word_ok ws \<Longrightarrow> py_split (py_join '' '' ws) = ws"
proof (induction ws)
  case Nil
  show ?case by simp
next
  case (Cons w ws)
  show ?case
  proof (cases ws)
    case Nil
    with Cons.prems show ?thesis by (simp add: py_split_single_word)
  next
    case (Cons v vs)
    with Cons.prems Cons.IH show ?thesis by (simp add: py_split_word_then_space)
  qed
qed

section \<open>Evaluation\<close>

lemmas handler_defs =
  extract_pdf_def extract_pdf_try_def extract_pdf_except_def extract_pdf_finally_def
  save_upload_def process_pdf_def os_unlink_def extract_text_from_pdf_ocr_def
  extract_structured_data_with_gemini_def gemini_try_def parse_response_def
  dict_contains_def dict_len_def dict_get_def

lemmas text_defs =
  clean_text_def py_split.simps py_strip_def isspace_def startswith_def endswith_def

lemmas example_defs = example_world_def idle_def status_and_detail_def

section \<open>Upload validation\<close>

lemma endswith_iff: "endswith s p \<longleftrightarrow> (\<exists>pre. s = pre @ p)"
proof
  assume "endswith s p"
  then have "s = take (length s - length p) s @ p"
    by (metis append_take_drop_id endswith_def)
  then show "\<exists>pre. s = pre @ p" ..
next
  assume "\<exists>pre. s = pre @ p"
  then show "endswith s p" by (auto simp: endswith_def)
qed

lemma extract_pdf_returns:
  "endswith filename ''.pdf'' \<Longrightarrow> \<exists>response. fst (extract_pdf w filename st) = Inr response"
  by (simp add: extract_pdf_def split: prod.splits)

text \<open>
  C10. A filename that does not end with the lowercase \<open>.pdf\<close> is answered by the
  \<open>HTTPException\<close> with status 400 and the fixed detail, and the state is the one before
  the request: no file created, nothing rasterised, no prompt sent. A filename that ends
  with \<open>.pdf\<close> is past the check: the handler returns an envelope with status 200. The
  comparison is of characters, so \<open>scan.PDF\<close> is rejected and the bare \<open>.pdf\<close> is accepted.
\<close>

theorem pdf_suffix_check:
  "(\<not> endswith filename ''.pdf'' \<longrightarrow>
      extract_pdf w filename st = (Inl (HTTPException 400 ''Only PDF files are supported''), st)
      \<and> http_status (fst (extract_pdf w filename st)) = 400)
   \<and> (endswith filename ''.pdf'' \<longrightarrow>
      (\<exists>response. fst (extract_pdf w filename st) = Inr response)
      \<and> http_status (fst (extract_pdf w filename st)) = 200)
   \<and> (endswith filename ''.pdf'' \<longleftrightarrow> (\<exists>pre. filename = pre @ ''.pdf''))
   \<and> \<not> endswith ''scan.PDF'' ''.pdf'' \<and> endswith ''.pdf'' ''.pdf''"
proof -
  have "http_status (fst (extract_pdf w filename st)) = 200" if "endswith filename ''.pdf''"
    using extract_pdf_returns [OF that, of w st] by auto
  moreover have "\<not> endswith ''scan.PDF'' ''.pdf''" "endswith ''.pdf'' ''.pdf''"
    by (simp_all add: endswith_def)
  ultimately show ?thesis
    using extract_pdf_returns [of filename w st] endswith_iff [of filename "''.pdf''"]
    by (simp add: extract_pdf_def)
qed

theorem pdf_suffix_check_witness:
  "extract_pdf (example_world (Inr []) (Inr None) (\<lambda>s. Inr [])) ''scan.PDF'' idle
     = (Inl (HTTPException 400 ''Only PDF files are supported''), idle)
   \<and> http_status (fst (extract_pdf (example_world (Inr []) (Inr None) (\<lambda>s. Inr [])) ''.pdf'' idle))
     = 200"
  using pdf_suffix_check [of "''scan.PDF''" "example_world (Inr []) (Inr None) (\<lambda>s. Inr [])" idle]
    pdf_suffix_check [of "''.pdf''" "example_world (Inr []) (Inr None) (\<lambda>s. Inr [])" idle]
  by (simp add: endswith_def)

section \<open>The envelope\<close>

lemma process_pdf_envelope:
  "process_pdf w path st = (Inr response, st') \<Longrightarrow>
     (success response \<longrightarrow> error response = None) \<and> (\<not> success response \<longrightarrow> data response = [])"
  by (auto simp: process_pdf_def split: prod.splits sum.splits if_splits)

text \<open>
  C4. Every envelope the handler returns has no error when \<open>success\<close> is true and the
  empty mapping as data when \<open>success\<close> is false.
\<close>

theorem envelope_invariant:
  assumes "fst (extract_pdf w filename st) = Inr response"
  shows "(success response \<longrightarrow> error response = None)
       \<and> (\<not> success response \<longrightarrow> data response = [])"
proof (cases "endswith filename ''.pdf''")
  case False
  with assms show ?thesis by (simp add: extract_pdf_def)
next
  case True
  obtain r vars st1 where t: "extract_pdf_try w st = (r, vars, st1)"
    by (cases "extract_pdf_try w st") auto
  show ?thesis
  proof (cases r)
    case (Inl e)
    with assms True t show ?thesis
      by (auto simp: extract_pdf_def extract_pdf_except_def)
  next
    case (Inr resp)
    with assms True t have eq: "response = resp"
      by (simp add: extract_pdf_def)
    from t Inr obtain path st0 st2 where "process_pdf w path st0 = (Inr resp, st2)"
      by (auto simp: extract_pdf_try_def split: prod.splits sum.splits)
    then show ?thesis
      unfolding eq by (rule process_pdf_envelope)
  qed
qed

theorem envelope_invariant_witness:
  "fst (extract_pdf
         (example_world (Inr [''Name: Jane Doe\<newline>DOB: 1990-01-01'', ''Phone: 555-1234''])
            (Inr (Some ''no json here'')) (\<lambda>s. Inl ''unused''))
         ''form.pdf'' idle)
     = Inr \<lparr>success = True, data = [(''rawResponse'', PyStr ''no json here'')], error = None\<rparr>
   \<and> error \<lparr>success = True, data = [(''rawResponse'', PyStr ''no json here'') :: string \<times> unit py_any],
             error = None\<rparr> = None"
proof -
  have h: "fst (extract_pdf
         (example_world (Inr [''Name: Jane Doe\<newline>DOB: 1990-01-01'', ''Phone: 555-1234''])
            (Inr (Some ''no json here'')) (\<lambda>s. Inl ''unused''))
         ''form.pdf'' idle)
     = Inr \<lparr>success = True, data = [(''rawResponse'', PyStr ''no json here'')], error = None\<rparr>"
    by (simp add: handler_defs text_defs example_defs match_here_def)
  show ?thesis
    using h envelope_invariant [OF h] by simp
qed

section \<open>Failure of rasterisation or OCR\<close>

lemma ocr_failure_detail:
  "fst (extract_text_from_pdf_ocr w path st) = Inl e \<Longrightarrow>
     \<exists>cause. e = HTTPException 500 (''OCR extraction failed: '' @ str_exn w cause)"
  by (auto simp: extract_text_from_pdf_ocr_def Let_def split: sum.splits)

text \<open>
  C2, as the code runs it. When the rasteriser or OCR raises, \<open>extract_text_from_pdf_ocr\<close>
  raises the \<open>HTTPException\<close> with status 500 and the detail that embeds the cause, but the
  call sits inside the \<open>try\<close> of the handler, whose \<open>except Exception\<close> catches it: the
  request is answered with status 200 and an envelope whose error is \<open>Processing failed: \<close>
  followed by the text of that exception.
\<close>

theorem ocr_failure_answered_200:
  assumes "endswith filename ''.pdf''"
    and "save_upload w st = (Inr path, vars, st1)"
    and "fst (extract_text_from_pdf_ocr w path st1) = Inl e"
  shows "(\<exists>cause. e = HTTPException 500 (''OCR extraction failed: '' @ str_exn w cause))
       \<and> fst (extract_pdf w filename st)
           = Inr \<lparr>success = False, data = [], error = Some (''Processing failed: '' @ str_exn w e)\<rparr>
       \<and> http_status (fst (extract_pdf w filename st)) = 200"
proof -
  obtain st2 where "extract_text_from_pdf_ocr w path st1 = (Inl e, st2)"
    using assms(3) by (cases "extract_text_from_pdf_ocr w path st1") auto
  then have "process_pdf w path st1 = (Inl e, st2)"
    by (simp add: process_pdf_def)
  then have "fst (extract_pdf w filename st) = Inr (extract_pdf_except w e)"
    using assms(1,2) by (simp add: extract_pdf_def extract_pdf_try_def)
  then show ?thesis
    using ocr_failure_detail [OF assms(3)] by (simp add: extract_pdf_except_def)
qed

theorem ocr_failure_answered_200_witness:
  "fst (extract_pdf (example_world (Inl (Error ''Unable to get page count.'')) (Inr None) (\<lambda>s. Inr []))
          ''form.pdf'' idle)
     = Inr \<lparr>success = False, data = [],
            error = Some ''Processing failed: 500: OCR extraction failed: Unable to get page count.''\<rparr>
   \<and> http_status (fst (extract_pdf
          (example_world (Inl (Error ''Unable to get page count.'')) (Inr None) (\<lambda>s. Inr []))
          ''form.pdf'' idle)) = 200"
proof -
  let ?w = "example_world (Inl (Error ''Unable to get page count.'')) (Inr None) (\<lambda>s. Inr [])"
  let ?st1 = "\<lparr>files = {''/tmp/tmpk3x9.pdf''}, rasterized = [], prompts = []\<rparr>"
  let ?e = "HTTPException 500 ''OCR extraction failed: Unable to get page count.''"
  have a: "endswith ''form.pdf'' ''.pdf''"
    by (simp add: endswith_def)
  have s: "save_upload ?w idle
      = (Inr ''/tmp/tmpk3x9.pdf'', \<lparr>temp_file = True, temp_file_path = Some ''/tmp/tmpk3x9.pdf''\<rparr>, ?st1)"
    by (simp add: save_upload_def example_defs)
  have o: "fst (extract_text_from_pdf_ocr ?w ''/tmp/tmpk3x9.pdf'' ?st1) = Inl ?e"
    by (simp add: extract_text_from_pdf_ocr_def example_defs)
  show ?thesis
    using ocr_failure_answered_200 [OF a s o] by (simp add: example_defs)
qed

section \<open>The transient file\<close>

lemma save_upload_created:
  "named_temporary_file w = Inr name \<Longrightarrow> save_upload w st = (r, vars, st1) \<Longrightarrow>
     files st1 = insert name (files st) \<and> temp_file vars"
  by (auto simp: save_upload_def Let_def)

lemma save_upload_path:
  "save_upload w st = (Inr path, vars, st1) \<Longrightarrow>
     named_temporary_file w = Inr path \<and> vars = \<lparr>temp_file = True, temp_file_path = Some path\<rparr>
     \<and> st1 = st\<lparr>files := insert path (files st)\<rparr>"
  by (auto simp: save_upload_def Let_def split: sum.splits option.splits)

lemma extract_text_from_pdf_ocr_state:
  "snd (extract_text_from_pdf_ocr w path st) = st\<lparr>rasterized := rasterized st @ [path]\<rparr>"
  by (simp add: extract_text_from_pdf_ocr_def Let_def split: sum.splits)

lemma extract_structured_data_with_gemini_state:
  "snd (extract_structured_data_with_gemini w text custom_prompt st)
     = st\<lparr>prompts := prompts st @ [build_prompt custom_prompt text]\<rparr>"
  by (simp add: extract_structured_data_with_gemini_def Let_def)

lemma process_pdf_files: "files (snd (process_pdf w path st)) = files st"
proof -
  obtain r st1 where o: "extract_text_from_pdf_ocr w path st = (r, st1)"
    by (cases "extract_text_from_pdf_ocr w path st") auto
  have f1: "files st1 = files st"
    using extract_text_from_pdf_ocr_state [of w path st] o by simp
  show ?thesis
  proof (cases r)
    case (Inl e)
    with o f1 show ?thesis by (simp add: process_pdf_def)
  next
    case (Inr extracted)
    obtain d st2 where g: "extract_structured_data_with_gemini w extracted None st1 = (d, st2)"
      by (cases "extract_structured_data_with_gemini w extracted None st1") auto
    have "files st2 = files st1"
      using extract_structured_data_with_gemini_state [of w extracted None st1] g by simp
    with o f1 Inr g show ?thesis
      by (simp add: process_pdf_def split: sum.splits)
  qed
qed

text \<open>
  Once line 188 has bound \<open>temp_file_path\<close>, the \<open>finally\<close> block removes the file however the
  rest of the request ends: success, too little text, failure of OCR, of the model or of
  the parser.
\<close>
lemma temp_file_removed_once_path_is_bound:
  assumes "endswith filename ''.pdf''"
    and "named_temporary_file w = Inr name"
    and "file_read w = Inr content"
    and "file_write w content = None"
  shows "name \<notin> files (snd (extract_pdf w filename st))"
proof -
  let ?vars = "\<lparr>temp_file = True, temp_file_path = Some name\<rparr>"
  let ?st1 = "st\<lparr>files := insert name (files st)\<rparr>"
  obtain r where s: "save_upload w st = (r, ?vars, ?st1)"
    using assms(2-4) by (simp add: save_upload_def Let_def)
  have "name \<notin> files (extract_pdf_finally ?vars st')" for st'
    by (simp add: extract_pdf_finally_def os_unlink_def)
  then show ?thesis
    using assms(1) s by (simp add: extract_pdf_def extract_pdf_try_def split: prod.splits sum.splits)
qed

text \<open>
  C8, as the code runs it. When reading the upload or writing it to the transient file
  raises, the file exists already but \<open>temp_file_path\<close> has no value yet: the \<open>finally\<close>
  block fails on the unbound name, the bare \<open>except\<close> swallows that, and the file is still
  there when the request ends.
\<close>

theorem temp_file_left_behind:
  assumes "endswith filename ''.pdf''"
    and "named_temporary_file w = Inr name"
    and "file_read w = Inl e \<or> (\<exists>content. file_read w = Inr content \<and> file_write w content = Some e)"
  shows "name \<in> files (snd (extract_pdf w filename st))"
proof -
  let ?vars = "\<lparr>temp_file = True, temp_file_path = None\<rparr>"
  let ?st1 = "st\<lparr>files := insert name (files st)\<rparr>"
  obtain e' where s: "save_upload w st = (Inl e', ?vars, ?st1)"
    using assms(2,3) by (cases "file_close w") (auto simp: save_upload_def Let_def)
  then have "snd (extract_pdf w filename st) = extract_pdf_finally ?vars ?st1"
    using assms(1) by (simp add: extract_pdf_def extract_pdf_try_def)
  then show ?thesis
    by (simp add: extract_pdf_finally_def)
qed

theorem temp_file_left_behind_witness:
  "''/tmp/tmpk3x9.pdf'' \<in> files (snd (extract_pdf
      ((example_world (Inr [''Name: Jane Doe'']) (Inr None) (\<lambda>s. Inr []))
         \<lparr>file_write := (\<lambda>content. Some (Error ''[Errno 28] No space left on device''))\<rparr>)
      ''form.pdf'' idle))
   \<and> ''/tmp/tmpk3x9.pdf'' \<notin> files idle"
proof -
  let ?w = "(example_world (Inr [''Name: Jane Doe'']) (Inr None) (\<lambda>s. Inr []))
         \<lparr>file_write := (\<lambda>content. Some (Error ''[Errno 28] No space left on device''))\<rparr>"
  have a: "endswith ''form.pdf'' ''.pdf''"
    by (simp add: endswith_def)
  have n: "named_temporary_file ?w = Inr ''/tmp/tmpk3x9.pdf''"
    by (simp add: example_world_def)
  have f: "file_read ?w = Inl (Error ''[Errno 28] No space left on device'')
      \<or> (\<exists>content. file_read ?w = Inr content
            \<and> file_write ?w content = Some (Error ''[Errno 28] No space left on device''))"
    by (simp add: example_world_def)
  show ?thesis
    using temp_file_left_behind [OF a n f, of idle] by (simp add: idle_def)
qed

section \<open>The request in the concrete world\<close>

lemma example_accepted: "endswith ''form.pdf'' ''.pdf''"
  by (simp add: endswith_def)

lemma example_save:
  "save_upload (example_world pages answer loads) idle
     = (Inr ''/tmp/tmpk3x9.pdf'', \<lparr>temp_file = True, temp_file_path = Some ''/tmp/tmpk3x9.pdf''\<rparr>,
        \<lparr>files = {''/tmp/tmpk3x9.pdf''}, rasterized = [], prompts = []\<rparr>)"
  by (simp add: save_upload_def example_defs)

lemma example_ocr:
  "extract_text_from_pdf_ocr (example_world scanned_form answer loads) ''/tmp/tmpk3x9.pdf''
       \<lparr>files = {''/tmp/tmpk3x9.pdf''}, rasterized = [], prompts = []\<rparr>
     = (Inr ''Name: Jane Doe DOB: 1990-01-01 Phone: 555-1234'',
        \<lparr>files = {''/tmp/tmpk3x9.pdf''}, rasterized = [''/tmp/tmpk3x9.pdf''], prompts = []\<rparr>)"
  by (simp add: extract_text_from_pdf_ocr_def example_world_def scanned_form_def text_defs)

lemma example_long: "\<not> length ''Name: Jane Doe DOB: 1990-01-01 Phone: 555-1234'' < 10"
  by simp

lemma example_answer:
  "generate_content (example_world pages (Inr (Some answer)) loads) prompt = Inr (Some answer)"
  by (simp add: example_world_def)

lemma example_loads: "json_loads (example_world pages answer loads) = loads"
  by (simp add: example_world_def)

section \<open>Too little text\<close>

lemma py_join_ends:
  "list_all word_ok ws \<Longrightarrow> ws \<noteq> [] \<Longrightarrow>
     py_join '' '' ws \<noteq> [] \<and> \<not> isspace (hd (py_join '' '' ws)) \<and> \<not> isspace (last (py_join '' '' ws))"
proof (induction ws)
  case Nil
  then show ?case by simp
next
  case (Cons w ws)
  from Cons.prems have w: "w \<noteq> []" "\<not> isspace (hd w)" "\<not> isspace (last w)"
    by (auto simp: word_ok_def list_all_iff)
  show ?case
  proof (cases ws)
    case Nil
    with w show ?thesis by simp
  next
    case (Cons v vs)
    with Cons.IH Cons.prems w show ?thesis by simp
  qed
qed

lemma py_strip_no_op:
  assumes "s = [] \<or> (\<not> isspace (hd s) \<and> \<not> isspace (last s))"
  shows "py_strip s = s"
proof (cases s)
  case Nil
  then show ?thesis by (simp add: py_strip_def)
next
  case (Cons c cs)
  with assms have h: "\<not> isspace c" and l: "\<not> isspace (last s)" by auto
  have "dropWhile isspace s = s"
    using h Cons by simp
  moreover have "dropWhile isspace (rev s) = rev s"
  proof (cases s rule: rev_cases)
    case Nil
    then show ?thesis by simp
  next
    case (snoc ys y)
    with l show ?thesis by simp
  qed

  ultimately show ?thesis by (simp add: py_strip_def)
qed

lemma py_strip_clean_text: "py_strip (clean_text s) = clean_text s"
proof (cases "py_split s = []")
  case True
  then show ?thesis by (simp add: clean_text_def py_strip_def)
next
  case False
  then show ?thesis
    unfolding clean_text_def
    using py_join_ends [OF py_split_words_ok [of s]] by (intro py_strip_no_op) simp
qed

lemma ocr_text_is_clean:
  "extract_text_from_pdf_ocr w path st = (Inr extracted, st') \<Longrightarrow> py_strip extracted = extracted"
  by (auto simp: extract_text_from_pdf_ocr_def Let_def py_strip_clean_text split: sum.splits)

lemma extract_pdf_finally_prompts: "prompts (extract_pdf_finally vars st) = prompts st"
  by (simp add: extract_pdf_finally_def os_unlink_def split: option.splits)

lemma save_upload_prompts: "save_upload w st = (r, vars, st1) \<Longrightarrow> prompts st1 = prompts st"
  by (auto simp: save_upload_def Let_def split: sum.splits)

text \<open>
  C3, as the code has it. The test is on the length of the trimmed text, and the text OCR
  returns is normalised, so trimming changes nothing and the single spaces between words
  count: a text of fewer than 10 characters gives the fixed failure envelope and no prompt
  is sent; a text of 10 characters or more is sent to the model, whatever the number of
  its characters that are not whitespace.
\<close>

theorem short_text_short_circuits:
  assumes "endswith filename ''.pdf''"
    and "save_upload w st = (Inr path, vars, st1)"
    and "extract_text_from_pdf_ocr w path st1 = (Inr extracted, st2)"
  shows "(length extracted < 10 \<longrightarrow>
            fst (extract_pdf w filename st)
              = Inr \<lparr>success = False, data = [],
                     error = Some ''No text could be extracted from the PDF.''\<rparr>
            \<and> prompts (snd (extract_pdf w filename st)) = prompts st)
       \<and> (\<not> length extracted < 10 \<longrightarrow>
            prompts (snd (extract_pdf w filename st)) = prompts st @ [build_prompt None extracted])"
proof -
  have strip: "py_strip extracted = extracted"
    using assms(3) by (rule ocr_text_is_clean)
  have p1: "prompts st1 = prompts st"
    using assms(2) by (rule save_upload_prompts)
  have p2: "prompts st2 = prompts st1"
    using extract_text_from_pdf_ocr_state [of w path st1] assms(3) by simp
  obtain d st3 where g: "extract_structured_data_with_gemini w extracted None st2 = (d, st3)"
    by (cases "extract_structured_data_with_gemini w extracted None st2") auto
  have p3: "prompts st3 = prompts st2 @ [build_prompt None extracted]"
    using extract_structured_data_with_gemini_state [of w extracted None st2] g by simp
  have short: "extracted = [] \<or> length (py_strip extracted) < 10 \<longleftrightarrow> length extracted < 10"
    by (auto simp: strip)
  show ?thesis
    using assms p1 p2 p3 g
    by (simp add: extract_pdf_def extract_pdf_try_def process_pdf_def short
        extract_pdf_finally_prompts split: sum.splits)
qed

theorem short_text_short_circuits_witness:
  "fst (extract_pdf (example_world (Inr [''ab'']) (Inr None) (\<lambda>s. Inl ''unused'')) ''form.pdf'' idle)
     = Inr \<lparr>success = False, data = [], error = Some ''No text could be extracted from the PDF.''\<rparr>
   \<and> prompts (snd (extract_pdf (example_world (Inr [''ab'']) (Inr None) (\<lambda>s. Inl ''unused''))
        ''form.pdf'' idle)) = []"
proof -
  let ?w = "example_world (Inr [''ab'']) (Inr None) (\<lambda>s. Inl ''unused'') :: (string, unit) world"
  have o: "extract_text_from_pdf_ocr ?w ''/tmp/tmpk3x9.pdf''
       \<lparr>files = {''/tmp/tmpk3x9.pdf''}, rasterized = [], prompts = []\<rparr>
     = (Inr ''ab'',
        \<lparr>files = {''/tmp/tmpk3x9.pdf''}, rasterized = [''/tmp/tmpk3x9.pdf''], prompts = []\<rparr>)"
    by (simp add: extract_text_from_pdf_ocr_def example_world_def text_defs)
  show ?thesis
    using short_text_short_circuits [OF example_accepted example_save o] by (simp add: idle_def)
qed

text \<open>
  C3, as the specification words it, counts characters that are not whitespace. The OCR text
  \<open>a b c d e f\<close> has six of them, fewer than 10, yet it is 11 characters long: the request
  succeeds and a prompt is sent.
\<close>

theorem six_letters_reach_the_model:
  "fst (extract_text_from_pdf_ocr
         (example_world (Inr [''a b c d e f'']) (Inr (Some ''no json here'')) (\<lambda>s. Inl ''unused''))
         ''/tmp/tmpk3x9.pdf'' idle) = Inr ''a b c d e f''
   \<and> length (filter (\<lambda>c. \<not> isspace c) (py_strip ''a b c d e f'')) = 6
   \<and> fst (extract_pdf
         (example_world (Inr [''a b c d e f'']) (Inr (Some ''no json here'')) (\<lambda>s. Inl ''unused''))
         ''form.pdf'' idle)
       = Inr \<lparr>success = True, data = [(''rawResponse'', PyStr ''no json here'')], error = None\<rparr>
   \<and> prompts (snd (extract_pdf
         (example_world (Inr [''a b c d e f'']) (Inr (Some ''no json here'')) (\<lambda>s. Inl ''unused''))
         ''form.pdf'' idle))
       = [build_prompt None ''a b c d e f'']"
  by (simp add: handler_defs text_defs example_defs match_here_def)

section \<open>A matched span that is not JSON\<close>

lemma extract_pdf_accepted:
  assumes "endswith filename ''.pdf''"
    and "save_upload w st = (Inr path, vars, st1)"
  shows "extract_pdf w filename st =
     (Inr (case fst (process_pdf w path st1) of
             Inl e \<Rightarrow> extract_pdf_except w e
           | Inr response \<Rightarrow> response),
      extract_pdf_finally vars (snd (process_pdf w path st1)))"
  using assms by (simp add: extract_pdf_def extract_pdf_try_def split: prod.splits)

lemma model_call_envelope:
  assumes "endswith filename ''.pdf''"
    and "save_upload w st = (Inr path, vars, st1)"
    and "extract_text_from_pdf_ocr w path st1 = (Inr extracted, st2)"
    and "\<not> length extracted < 10"
    and "structured_data = (case gemini_try w (build_prompt None extracted) of
                              Inl e \<Rightarrow> gemini_except w e
                            | Inr extracted_data \<Rightarrow> extracted_data)"
  shows "fst (extract_pdf w filename st) =
     Inr (if dict_contains ''error'' structured_data \<and> dict_len structured_data = 1 then
            (case dict_get structured_data ''error'' of
               Inl e \<Rightarrow> extract_pdf_except w e
             | Inr v \<Rightarrow> \<lparr>success = False, data = [],
                         error = Some (''AI extraction failed: '' @ format_value w v)\<rparr>)
          else \<lparr>success = True, data = structured_data, error = None\<rparr>)"
proof -
  have strip: "py_strip extracted = extracted"
    using assms(3) by (rule ocr_text_is_clean)
  have long: "\<not> (extracted = [] \<or> length (py_strip extracted) < 10)"
    using assms(4) by (auto simp: strip)
  have "fst (process_pdf w path st1) =
     (if dict_contains ''error'' structured_data \<and> dict_len structured_data = 1 then
        (case dict_get structured_data ''error'' of
           Inl e \<Rightarrow> Inl e
         | Inr v \<Rightarrow> Inr \<lparr>success = False, data = [],
                         error = Some (''AI extraction failed: '' @ format_value w v)\<rparr>)
      else Inr \<lparr>success = True, data = structured_data, error = None\<rparr>)"
    using assms(3) long
    by (simp add: process_pdf_def extract_structured_data_with_gemini_def Let_def assms(5)
        split: sum.splits)
  then show ?thesis
    by (simp add: extract_pdf_accepted [OF assms(1,2)] split: sum.splits)
qed

lemma matched_span_parse:
  assumes "(if startswith (py_strip answer) ''{'' then Some (py_strip answer)
            else re_search (py_strip answer)) = Some span"
  shows "parse_response w answer = json_loads w span"
  using assms by (auto simp: parse_response_def Let_def split: if_splits)

text \<open>
  C1, as the code has it. A span was matched (the whole trimmed text when it starts with
  an opening brace, group 1 of the fence search otherwise) and \<open>json.loads\<close> raises on it
  with message \<open>msg\<close>. The parser fails, it does not fall back to \<open>rawResponse\<close>; the
  \<open>except Exception\<close> of \<open>extract_structured_data_with_gemini\<close> turns the exception into the
  one-key error dictionary, and the handler answers with \<open>AI extraction failed: \<close> and the
  message.
\<close>

theorem invalid_json_span_is_ai_failure:
  assumes "endswith filename ''.pdf''"
    and "save_upload w st = (Inr path, vars, st1)"
    and "extract_text_from_pdf_ocr w path st1 = (Inr extracted, st2)"
    and "\<not> length extracted < 10"
    and "generate_content w (build_prompt None extracted) = Inr (Some answer)"
    and "(if startswith (py_strip answer) ''{'' then Some (py_strip answer)
          else re_search (py_strip answer)) = Some span"
    and "json_loads w span = Inl msg"
  shows "parse_response w answer = Inl msg
       \<and> fst (extract_pdf w filename st)
           = Inr \<lparr>success = False, data = [], error = Some (''AI extraction failed: '' @ msg)\<rparr>"
proof -
  have p: "parse_response w answer = Inl msg"
    using matched_span_parse [OF assms(6), of w] assms(7) by simp
  then have "(case gemini_try w (build_prompt None extracted) of
                Inl e \<Rightarrow> gemini_except w e
              | Inr extracted_data \<Rightarrow> extracted_data) = [(''error'', PyStr msg)]"
    using assms(5) by (simp add: gemini_try_def)
  from model_call_envelope [OF assms(1-4) this [symmetric]] p show ?thesis
    by (simp add: dict_contains_def dict_len_def dict_get_def)
qed

theorem invalid_json_span_is_ai_failure_witness:
  \<open>fst (extract_pdf
         (example_world scanned_form (Inr (Some ''```json\<newline>{"a":1,}\<newline>```''))
            (\<lambda>s. Inl ''Expecting property name enclosed in double quotes''))
         ''form.pdf'' idle)
     = Inr \<lparr>success = False, data = [],
            error = Some ''AI extraction failed: Expecting property name enclosed in double quotes''\<rparr>\<close>
proof -
  let ?loads = "(\<lambda>s. Inl ''Expecting property name enclosed in double quotes'')
    :: string \<Rightarrow> string + unit dict"
  let ?w = \<open>example_world scanned_form (Inr (Some ''```json\<newline>{"a":1,}\<newline>```'')) ?loads\<close>
  have sp: \<open>(if startswith (py_strip ''```json\<newline>{"a":1,}\<newline>```'') ''{''
             then Some (py_strip ''```json\<newline>{"a":1,}\<newline>```'')
             else re_search (py_strip ''```json\<newline>{"a":1,}\<newline>```'')) = Some ''{"a":1,}''\<close>
    by (simp add: text_defs match_here_def match_object_def)
  have j: \<open>json_loads ?w ''{"a":1,}'' = Inl ''Expecting property name enclosed in double quotes''\<close>
    by (simp add: example_loads)
  show ?thesis
    using invalid_json_span_is_ai_failure
      [OF example_accepted example_save example_ocr example_long example_answer sp j]
    by simp
qed

text \<open>
  C1, as the specification words it, has the prefix \<open>Processing failed: \<close>. On a fenced object with a
  trailing comma the envelope carries \<open>AI extraction failed: \<close>.
\<close>

theorem invalid_json_span_counterexample:
  \<open>fst (extract_pdf
         (example_world scanned_form (Inr (Some ''```json\<newline>{"a":1,}\<newline>```''))
            (\<lambda>s. Inl ''Expecting property name enclosed in double quotes: line 1 column 8 (char 7)''))
         ''form.pdf'' idle)
     = Inr \<lparr>success = False, data = [],
            error = Some ''AI extraction failed: Expecting property name enclosed in double quotes: line 1 column 8 (char 7)''\<rparr>
   \<and> fst (extract_pdf
         (example_world scanned_form (Inr (Some ''```json\<newline>{"a":1,}\<newline>```''))
            (\<lambda>s. Inl ''Expecting property name enclosed in double quotes: line 1 column 8 (char 7)''))
         ''form.pdf'' idle)
     \<noteq> Inr \<lparr>success = False, data = [],
            error = Some ''Processing failed: Expecting property name enclosed in double quotes: line 1 column 8 (char 7)''\<rparr>\<close>
  by (simp add: handler_defs text_defs example_defs scanned_form_def match_here_def match_object_def)

section \<open>An error object from the model\<close>

lemma ocr_loop_generate_content [simp]:
  "ocr_loop (w\<lparr>generate_content := g\<rparr>) images acc = ocr_loop w images acc"
  by (induction images arbitrary: acc) (auto split: sum.splits)

lemma str_exn_generate_content [simp]:
  "str_exn (w\<lparr>generate_content := g\<rparr>) e = str_exn w e"
  by (cases e) auto

lemma format_value_generate_content [simp]:
  "format_value (w\<lparr>generate_content := g\<rparr>) v = format_value w v"
  by (cases v) auto

lemma save_upload_generate_content [simp]:
  "save_upload (w\<lparr>generate_content := g\<rparr>) st = save_upload w st"
  by (simp add: save_upload_def Let_def cong: sum.case_cong option.case_cong)

lemma extract_text_generate_content [simp]:
  "extract_text_from_pdf_ocr (w\<lparr>generate_content := g\<rparr>) path st = extract_text_from_pdf_ocr w path st"
  by (simp add: extract_text_from_pdf_ocr_def Let_def cong: sum.case_cong)

lemma extract_pdf_snd:
  assumes "endswith filename ''.pdf''"
    and "save_upload w st = (Inr path, vars, st1)"
    and "extract_text_from_pdf_ocr w path st1 = (Inr extracted, st2)"
    and "\<not> length extracted < 10"
  shows "snd (extract_pdf w filename st)
     = extract_pdf_finally vars (st2\<lparr>prompts := prompts st2 @ [build_prompt None extracted]\<rparr>)"
proof -
  have strip: "py_strip extracted = extracted"
    using assms(3) by (rule ocr_text_is_clean)
  have long: "\<not> (extracted = [] \<or> length (py_strip extracted) < 10)"
    using assms(4) by (auto simp: strip)
  obtain d st3 where g: "extract_structured_data_with_gemini w extracted None st2 = (d, st3)"
    by (cases "extract_structured_data_with_gemini w extracted None st2") auto
  have "st3 = st2\<lparr>prompts := prompts st2 @ [build_prompt None extracted]\<rparr>"
    using extract_structured_data_with_gemini_state [of w extracted None st2] g by simp
  then have "snd (process_pdf w path st1) = st2\<lparr>prompts := prompts st2 @ [build_prompt None extracted]\<rparr>"
    using assms(3) long g
    by (simp add: process_pdf_def split: sum.splits)
  then show ?thesis
    by (simp add: extract_pdf_accepted [OF assms(1,2)])
qed

text \<open>
  C9. When the model answers with JSON that parses to the one-key dictionary
  \<open>{"error": x}\<close>, the envelope is the failure \<open>AI extraction failed: x\<close>, and the whole
  outcome of the request, envelope and state, is the one of the world where the call to the
  model raises an exception whose text is \<open>x\<close>.
\<close>

theorem error_object_reads_as_failed_call:
  assumes "endswith filename ''.pdf''"
    and "save_upload w st = (Inr path, vars, st1)"
    and "extract_text_from_pdf_ocr w path st1 = (Inr extracted, st2)"
    and "\<not> length extracted < 10"
    and "generate_content w (build_prompt None extracted) = Inr (Some answer)"
    and "(if startswith (py_strip answer) ''{'' then Some (py_strip answer)
          else re_search (py_strip answer)) = Some span"
    and "json_loads w span = Inr [(''error'', PyStr x)]"
  shows "fst (extract_pdf w filename st)
           = Inr \<lparr>success = False, data = [], error = Some (''AI extraction failed: '' @ x)\<rparr>
       \<and> extract_pdf (w\<lparr>generate_content := (\<lambda>prompt. Inl (Error x))\<rparr>) filename st
           = extract_pdf w filename st"
proof -
  let ?w' = "w\<lparr>generate_content := (\<lambda>prompt. Inl (Error x))\<rparr>"
  let ?resp = "\<lparr>success = False, data = [], error = Some (''AI extraction failed: '' @ x)\<rparr>
    :: 'b LLMResponse"
  have p: "parse_response w answer = Inr [(''error'', PyStr x)]"
    using matched_span_parse [OF assms(6), of w] assms(7) by simp
  then have "(case gemini_try w (build_prompt None extracted) of
                Inl e \<Rightarrow> gemini_except w e
              | Inr extracted_data \<Rightarrow> extracted_data) = [(''error'', PyStr x)]"
    using assms(5) by (simp add: gemini_try_def)
  from model_call_envelope [OF assms(1-4) this [symmetric]]
  have a: "fst (extract_pdf w filename st) = Inr ?resp"
    by (simp add: dict_contains_def dict_len_def dict_get_def)
  have s': "save_upload ?w' st = (Inr path, vars, st1)"
    using assms(2) by simp
  have o': "extract_text_from_pdf_ocr ?w' path st1 = (Inr extracted, st2)"
    using assms(3) by simp
  have "(case gemini_try ?w' (build_prompt None extracted) of
           Inl e \<Rightarrow> gemini_except ?w' e
         | Inr extracted_data \<Rightarrow> extracted_data) = [(''error'', PyStr x)]"
    by (simp add: gemini_try_def)
  from model_call_envelope [OF assms(1) s' o' assms(4) this [symmetric]]
  have b: "fst (extract_pdf ?w' filename st) = Inr ?resp"
    by (simp add: dict_contains_def dict_len_def dict_get_def)
  have "snd (extract_pdf ?w' filename st) = snd (extract_pdf w filename st)"
    using extract_pdf_snd [OF assms(1-4)] extract_pdf_snd [OF assms(1) s' o' assms(4)] by simp
  with a b show ?thesis
    by (simp add: prod_eq_iff)
qed

theorem error_object_reads_as_failed_call_witness:
  \<open>fst (extract_pdf
         (example_world scanned_form (Inr (Some ''{"error": "x"}''))
            (\<lambda>s. Inr [(''error'', PyStr ''x'')]))
         ''form.pdf'' idle)
     = Inr \<lparr>success = False, data = [], error = Some ''AI extraction failed: x''\<rparr>
   \<and> extract_pdf
         (example_world scanned_form (Inl (Error ''x'')) (\<lambda>s. Inr [(''error'', PyStr ''x'')]))
         ''form.pdf'' idle
     = extract_pdf
         (example_world scanned_form (Inr (Some ''{"error": "x"}''))
            (\<lambda>s. Inr [(''error'', PyStr ''x'')]))
         ''form.pdf'' idle\<close>
proof -
  let ?loads = "(\<lambda>s. Inr [(''error'', PyStr ''x'')]) :: string \<Rightarrow> string + unit dict"
  let ?w = \<open>example_world scanned_form (Inr (Some ''{"error": "x"}'')) ?loads\<close>
  have sp: \<open>(if startswith (py_strip ''{"error": "x"}'') ''{''
             then Some (py_strip ''{"error": "x"}'')
             else re_search (py_strip ''{"error": "x"}'')) = Some ''{"error": "x"}''\<close>
    by (simp add: text_defs)
  have j: \<open>json_loads ?w ''{"error": "x"}'' = Inr [(''error'', PyStr ''x'')]\<close>
    by (simp add: example_loads)
  have "?w\<lparr>generate_content := (\<lambda>prompt. Inl (Error ''x''))\<rparr>
      = example_world scanned_form (Inl (Error ''x'')) ?loads"
    by (simp add: example_world_def)
  then show ?thesis
    using error_object_reads_as_failed_call
      [OF example_accepted example_save example_ocr example_long example_answer sp j]
    by simp
qed

section \<open>Truncation of the prompt\<close>




section \<open>The fence search meets its description\<close>

lemma not_space_punct [simp]:
  "\<not> isspace CHR ''`''" "\<not> isspace CHR ''{''" "\<not> isspace CHR ''j''"
  by (simp_all add: isspace_def)

lemma startswith_iff: "startswith s p \<longleftrightarrow> (\<exists>r. s = p @ r)"
proof
  assume "startswith s p"
  then have "s = p @ drop (length p) s"
    by (metis append_take_drop_id startswith_def)
  then show "\<exists>r. s = p @ r" ..
next
  assume "\<exists>r. s = p @ r"
  then show "startswith s p" by (auto simp: startswith_def)
qed

lemma skip_all_space:
  "list_all isspace ws \<Longrightarrow> \<not> isspace c \<Longrightarrow> dropWhile isspace (ws @ c # r) = c # r"
  by (simp add: list_all_iff dropWhile_append)

lemma space_then_rest:
  assumes "dropWhile isspace s = r"
  shows "\<exists>ws. s = ws @ r \<and> list_all isspace ws"
proof -
  have "s = takeWhile isspace s @ r"
    using assms by (metis takeWhile_dropWhile_id)
  moreover have "list_all isspace (takeWhile isspace s)"
    by (auto simp: list_all_iff dest: set_takeWhileD)
  ultimately show ?thesis by blast
qed

lemma lazy_object_sound:
  "lazy_object acc cs = Some g \<Longrightarrow>
     \<exists>mid ws2 post. cs = mid @ ''}'' @ ws2 @ ''```'' @ post \<and> list_all isspace ws2
       \<and> g = rev acc @ mid @ ''}''"
proof (induction cs arbitrary: acc)
  case Nil
  then show ?case by simp
next
  case (Cons c cs)
  show ?case
  proof (cases "c = CHR ''}'' \<and> startswith (dropWhile isspace cs) ''```''")
    case True
    then obtain post where "dropWhile isspace cs = ''```'' @ post"
      by (auto simp: startswith_iff)
    then obtain ws2 where "cs = ws2 @ ''```'' @ post" "list_all isspace ws2"
      using space_then_rest by blast
    moreover have "g = rev acc @ ''}''"
      using Cons.prems True by simp
    ultimately have "c # cs = [] @ ''}'' @ ws2 @ ''```'' @ post \<and> list_all isspace ws2
        \<and> g = rev acc @ [] @ ''}''"
      using True by simp
    then show ?thesis by blast
  next
    case False
    then have "lazy_object (c # acc) cs = Some g"
      using Cons.prems by auto
    then obtain mid ws2 post where "cs = mid @ ''}'' @ ws2 @ ''```'' @ post"
      "list_all isspace ws2" "g = rev (c # acc) @ mid @ ''}''"
      using Cons.IH by blast
    then have "c # cs = (c # mid) @ ''}'' @ ws2 @ ''```'' @ post \<and> list_all isspace ws2
        \<and> g = rev acc @ (c # mid) @ ''}''"
      by simp
    then show ?thesis by blast
  qed
qed

lemma lazy_object_shortest:
  "list_all isspace ws2 \<Longrightarrow>
     \<exists>g. lazy_object acc (mid @ ''}'' @ ws2 @ ''```'' @ post) = Some g
       \<and> length g \<le> length acc + length mid + 1"
proof (induction mid arbitrary: acc)
  case Nil
  have "dropWhile isspace (ws2 @ ''```'' @ post) = ''```'' @ post"
    using skip_all_space [OF Nil, of "CHR ''`''"] by simp
  then show ?case by (simp add: startswith_def)
next
  case (Cons c mid)
  from Cons.IH [OF Cons.prems, of "c # acc"] show ?case
    by auto
qed

lemma match_object_sound:
  assumes "match_object s = Some g"
  shows "\<exists>ws1 mid ws2 post. s = ws1 @ g @ ws2 @ ''```'' @ post
       \<and> list_all isspace ws1 \<and> list_all isspace ws2 \<and> g = ''{'' @ mid @ ''}''"
proof -
  from assms obtain cs where d: "dropWhile isspace s = CHR ''{'' # cs"
    and l: "lazy_object ''{'' cs = Some g"
    by (auto simp: match_object_def split: list.splits if_splits)
  from space_then_rest [OF d] obtain ws1 where s: "s = ws1 @ CHR ''{'' # cs" "list_all isspace ws1"
    by blast
  from lazy_object_sound [OF l] obtain mid ws2 post where
    "cs = mid @ ''}'' @ ws2 @ ''```'' @ post" "list_all isspace ws2" "g = ''{'' @ mid @ ''}''"
    by auto
  with s have "s = ws1 @ g @ ws2 @ ''```'' @ post \<and> list_all isspace ws1 \<and> list_all isspace ws2
      \<and> g = ''{'' @ mid @ ''}''"
    by simp
  then show ?thesis by blast
qed

lemma match_object_shortest:
  assumes "list_all isspace ws1" and "list_all isspace ws2"
  shows "\<exists>g. match_object (ws1 @ ''{'' @ mid @ ''}'' @ ws2 @ ''```'' @ post) = Some g
       \<and> length g \<le> length mid + 2"
proof -
  have "dropWhile isspace (ws1 @ ''{'' @ mid @ ''}'' @ ws2 @ ''```'' @ post)
      = CHR ''{'' # mid @ ''}'' @ ws2 @ ''```'' @ post"
    using skip_all_space [OF assms(1), of "CHR ''{''"] by simp
  then show ?thesis
    using lazy_object_shortest [OF assms(2), of "''{''" mid post]
    by (auto simp: match_object_def)
qed

lemma match_here_sound:
  assumes "match_here s = Some g"
  shows "fenced_at [] s g"
proof -
  from assms obtain r where s: "s = ''```'' @ r"
    by (auto simp: match_here_def startswith_iff split: if_splits)
  then have d: "drop 3 s = r" by simp
  from assms s d consider
      (tagged) r' where "r = ''json'' @ r'" "match_object r' = Some g"
    | (plain) "match_object r = Some g"
    by (auto simp: match_here_def Let_def startswith_iff split: if_splits option.splits)
  then show ?thesis
  proof cases
    case tagged
    from match_object_sound [OF tagged(2)] obtain ws1 mid ws2 post where
      "r' = ws1 @ g @ ws2 @ ''```'' @ post" "list_all isspace ws1" "list_all isspace ws2"
      "g = ''{'' @ mid @ ''}''"
      by blast
    with s tagged(1) have "s = [] @ ''```'' @ ''json'' @ ws1 @ g @ ws2 @ ''```'' @ post
        \<and> (''json'' = [] \<or> ''json'' = ''json'')
        \<and> list_all isspace ws1 \<and> list_all isspace ws2 \<and> g = ''{'' @ mid @ ''}''"
      by simp
    then show ?thesis
      unfolding fenced_at_def by blast
  next
    case plain
    from match_object_sound [OF plain] obtain ws1 mid ws2 post where
      "r = ws1 @ g @ ws2 @ ''```'' @ post" "list_all isspace ws1" "list_all isspace ws2"
      "g = ''{'' @ mid @ ''}''"
      by blast
    with s have "s = [] @ ''```'' @ [] @ ws1 @ g @ ws2 @ ''```'' @ post
        \<and> ([] = [] \<or> [] = ''json'')
        \<and> list_all isspace ws1 \<and> list_all isspace ws2 \<and> g = ''{'' @ mid @ ''}''"
      by simp
    then show ?thesis
      unfolding fenced_at_def by blast
  qed
qed

lemma fenced_at_shift: "fenced_at pre s g \<longleftrightarrow> (\<exists>rest. s = pre @ rest \<and> fenced_at [] rest g)"
  unfolding fenced_at_def append_Nil by blast

lemma match_here_shortest:
  assumes "fenced_at [] s g'"
  shows "\<exists>g. match_here s = Some g \<and> length g \<le> length g'"
proof -
  from assms obtain tag ws1 mid ws2 post where
    s0: "s = ''```'' @ tag @ ws1 @ g' @ ws2 @ ''```'' @ post"
    and tag: "tag = [] \<or> tag = ''json''"
    and ws: "list_all isspace ws1" "list_all isspace ws2"
    and g': "g' = ''{'' @ mid @ ''}''"
    unfolding fenced_at_def append_Nil by blast
  have s: "s = ''```'' @ tag @ ws1 @ ''{'' @ mid @ ''}'' @ ws2 @ ''```'' @ post"
    unfolding s0 g' by simp
  let ?body = "ws1 @ ''{'' @ mid @ ''}'' @ ws2 @ ''```'' @ post"
  from match_object_shortest [OF ws, of mid post] obtain g where
    g: "match_object ?body = Some g" "length g \<le> length mid + 2"
    by blast
  have plain: "\<not> startswith ?body ''json''"
  proof
    assume "startswith ?body ''json''"
    then obtain r where r: "?body = ''json'' @ r"
      by (auto simp: startswith_iff)
    show False
    proof (cases ws1)
      case Nil
      with r show False by simp
    next
      case (Cons c cs)
      with r ws(1) show False by simp
    qed
  qed
  from tag have "match_here s = Some g"
  proof
    assume "tag = []"
    with s g(1) plain show ?thesis
      by (simp add: match_here_def startswith_def)
  next
    assume "tag = ''json''"
    with s g(1) show ?thesis
      by (simp add: match_here_def startswith_def)
  qed
  with g(2) g' show ?thesis by simp
qed

lemma re_search_leftmost:
  "re_search s = Some g \<Longrightarrow>
     \<exists>pre rest. s = pre @ rest \<and> match_here rest = Some g
       \<and> (\<forall>k<length pre. match_here (drop k s) = None)"
proof (induction s)
  case Nil
  then show ?case by simp
next
  case (Cons c cs)
  show ?case
  proof (cases "match_here (c # cs)")
    case (Some g0)
    with Cons.prems have "c # cs = [] @ (c # cs) \<and> match_here (c # cs) = Some g
        \<and> (\<forall>k<length ([] :: string). match_here (drop k (c # cs)) = None)"
      by simp
    then show ?thesis by blast
  next
    case None
    with Cons.prems have "re_search cs = Some g" by simp
    from Cons.IH [OF this] obtain pre rest where
      p: "cs = pre @ rest" "match_here rest = Some g"
      "\<forall>k<length pre. match_here (drop k cs) = None"
      by blast
    have "match_here (drop k (c # cs)) = None" if "k < length (c # pre)" for k
      using that None p(3) by (cases k) auto
    with p(1,2) have "c # cs = (c # pre) @ rest \<and> match_here rest = Some g
        \<and> (\<forall>k<length (c # pre). match_here (drop k (c # cs)) = None)"
      by simp
    then show ?thesis by blast
  qed
qed

lemma re_search_finds:
  "match_here rest = Some g \<Longrightarrow> \<exists>g0. re_search (pre @ rest) = Some g0"
proof (induction pre)
  case Nil
  then show ?case by (cases rest) auto
next
  case (Cons c pre)
  then show ?case by (cases "match_here (c # pre @ rest)") auto
qed

lemma re_search_Some:
  assumes "re_search s = Some g"
  shows "\<exists>pre. fenced_at pre s g
     \<and> (\<forall>pre' g'. fenced_at pre' s g' \<longrightarrow>
           length pre \<le> length pre' \<and> (length pre' = length pre \<longrightarrow> length g \<le> length g'))"
proof -
  from re_search_leftmost [OF assms] obtain pre rest where
    p: "s = pre @ rest" "match_here rest = Some g"
    "\<forall>k<length pre. match_here (drop k s) = None"
    by blast
  have here: "fenced_at pre s g"
    using match_here_sound [OF p(2)] p(1) fenced_at_shift [of pre s g] by blast
  have least: "length pre \<le> length pre' \<and> (length pre' = length pre \<longrightarrow> length g \<le> length g')"
    if f: "fenced_at pre' s g'" for pre' g'
  proof -
    from f obtain rest' where r': "s = pre' @ rest'" "fenced_at [] rest' g'"
      using fenced_at_shift [of pre' s g'] by blast
    from match_here_shortest [OF r'(2)] obtain g0 where
      g0: "match_here rest' = Some g0" "length g0 \<le> length g'"
      by blast
    have d: "drop (length pre') s = rest'"
      using r'(1) by simp
    have le: "length pre \<le> length pre'"
    proof (rule ccontr)
      assume "\<not> length pre \<le> length pre'"
      then have "match_here (drop (length pre') s) = None"
        using p(3) by simp
      with d g0(1) show False by simp
    qed
    have "length g \<le> length g'" if "length pre' = length pre"
    proof -
      from that p(1) r'(1) have "rest' = rest"
        by (metis append_eq_append_conv)
      with g0 p(2) show ?thesis by simp
    qed
    with le show ?thesis by simp
  qed
  from here least show ?thesis by blast
qed

lemma re_search_None: "re_search s = None \<longleftrightarrow> \<not> (\<exists>g. fenced s g)"
proof
  assume n: "re_search s = None"
  show "\<not> (\<exists>g. fenced s g)"
  proof
    assume "\<exists>g. fenced s g"
    then obtain pre g where "fenced_at pre s g"
      unfolding fenced_def by blast
    then obtain rest where "s = pre @ rest" "fenced_at [] rest g"
      using fenced_at_shift [of pre s g] by blast
    then obtain g0 where "re_search s = Some g0"
      using match_here_shortest re_search_finds by blast
    with n show False by simp
  qed
next
  assume f: "\<not> (\<exists>g. fenced s g)"
  show "re_search s = None"
  proof (cases "re_search s")
    case None
    then show ?thesis .
  next
    case (Some g)
    from re_search_Some [OF Some] f show ?thesis
      by (auto simp: fenced_def)
  qed
qed

section \<open>The three cases of the response parser\<close>

text \<open>
  C5. On the trimmed response text \<open>r\<close> the parser takes the first case that applies.
  When \<open>r\<close> starts with an opening brace, its result is what \<open>json.loads\<close> gives for the
  whole of \<open>r\<close>. Otherwise, when \<open>r\<close> holds a fenced block, the search finds one and the
  result is what \<open>json.loads\<close> gives for the captured object \<open>g\<close>; the block found is the one
  whose opening fence comes first, and \<open>g\<close> is the shortest object that a closing fence
  follows there, which is what the lazy quantifier asks for. Otherwise the result is the
  dictionary with the single key \<open>rawResponse\<close> and the text \<open>r\<close>, and the request is
  answered with \<open>success\<close> true and that dictionary as data.
\<close>

theorem response_parser_cases:
  assumes "endswith filename ''.pdf''"
    and "save_upload w st = (Inr path, vars, st1)"
    and "extract_text_from_pdf_ocr w path st1 = (Inr extracted, st2)"
    and "\<not> length extracted < 10"
    and "generate_content w (build_prompt None extracted) = Inr (Some answer)"
    and "r = py_strip answer"
  shows "(startswith r ''{'' \<longrightarrow> parse_response w answer = json_loads w r)
       \<and> (\<not> startswith r ''{'' \<longrightarrow>
            (\<forall>g. re_search r = Some g \<longrightarrow>
               parse_response w answer = json_loads w g
               \<and> (\<exists>pre. fenced_at pre r g
                    \<and> (\<forall>pre' g'. fenced_at pre' r g' \<longrightarrow>
                          length pre \<le> length pre'
                          \<and> (length pre' = length pre \<longrightarrow> length g \<le> length g'))))
            \<and> ((\<exists>g. fenced r g) \<longrightarrow> (\<exists>g. re_search r = Some g))
            \<and> (\<not> (\<exists>g. fenced r g) \<longrightarrow>
                 parse_response w answer = Inr [(''rawResponse'', PyStr r)]
                 \<and> fst (extract_pdf w filename st)
                     = Inr \<lparr>success = True, data = [(''rawResponse'', PyStr r)], error = None\<rparr>))"
proof -
  have bare: "parse_response w answer = json_loads w r" if "startswith r ''{''"
    using that assms(6) by (simp add: parse_response_def)
  have block: "parse_response w answer = json_loads w g"
    if "\<not> startswith r ''{''" "re_search r = Some g" for g
    using that assms(6) by (simp add: parse_response_def)
  have found: "\<exists>g. re_search r = Some g" if "\<exists>g. fenced r g"
    using that re_search_None [of r] by (cases "re_search r") auto
  have fallback: "parse_response w answer = Inr [(''rawResponse'', PyStr r)]"
    if "\<not> startswith r ''{''" "\<not> (\<exists>g. fenced r g)"
    using that assms(6) re_search_None [of r] by (simp add: parse_response_def)
  have envelope: "fst (extract_pdf w filename st)
      = Inr \<lparr>success = True, data = [(''rawResponse'', PyStr r)], error = None\<rparr>"
    if "\<not> startswith r ''{''" "\<not> (\<exists>g. fenced r g)"
  proof -
    have "(case gemini_try w (build_prompt None extracted) of
             Inl e \<Rightarrow> gemini_except w e
           | Inr extracted_data \<Rightarrow> extracted_data) = [(''rawResponse'', PyStr r)]"
      using fallback [OF that] assms(5) by (simp add: gemini_try_def)
    from model_call_envelope [OF assms(1-4) this [symmetric]] show ?thesis
      by (simp add: dict_contains_def)
  qed
  from bare block found fallback envelope re_search_Some [of r] show ?thesis
    by blast
qed

theorem response_parser_cases_witness:
  \<open>parse_response (example_world scanned_form (Inr (Some '' {"a":1}\<newline>''))
        (\<lambda>s. if s = ''{"a":1}'' then Inr [(''a'', PyOther ())] else Inl ''Expecting value'')) '' {"a":1}\<newline>''
     = Inr [(''a'', PyOther ())]
   \<and> parse_response (example_world scanned_form
        (Inr (Some ''Here it is:\<newline>```json\<newline>{"a":1}\<newline>```\<newline>and ```{}```''))
        (\<lambda>s. if s = ''{"a":1}'' then Inr [(''a'', PyOther ())] else Inl ''Expecting value''))
        ''Here it is:\<newline>```json\<newline>{"a":1}\<newline>```\<newline>and ```{}```''
     = Inr [(''a'', PyOther ())]
   \<and> fst (extract_pdf (example_world scanned_form (Inr (Some ''no json here''))
        (\<lambda>s. if s = ''{"a":1}'' then Inr [(''a'', PyOther ())] else Inl ''Expecting value''))
        ''form.pdf'' idle)
     = Inr \<lparr>success = True, data = [(''rawResponse'', PyStr ''no json here'')], error = None\<rparr>\<close>
proof -
  let ?loads = \<open>(\<lambda>s. if s = ''{"a":1}'' then Inr [(''a'', PyOther ())] else Inl ''Expecting value'')
    :: string \<Rightarrow> string + unit dict\<close>
  let ?bare = \<open>'' {"a":1}\<newline>''\<close>
  let ?block = \<open>''Here it is:\<newline>```json\<newline>{"a":1}\<newline>```\<newline>and ```{}```''\<close>
  let ?free = "''no json here''"
  have b1: \<open>''{"a":1}'' = py_strip ?bare\<close>
    by (simp add: text_defs)
  have b2: \<open>startswith ''{"a":1}'' ''{''\<close>
    by (simp add: startswith_def)
  have k1: "?block = py_strip ?block"
    by (simp add: text_defs)
  have k2: "\<not> startswith ?block ''{''"
    by (simp add: startswith_def)
  have k3: \<open>re_search ?block = Some ''{"a":1}''\<close>
    by (simp add: match_here_def match_object_def text_defs)
  have f1: "?free = py_strip ?free"
    by (simp add: text_defs)
  have f2: "\<not> startswith ?free ''{''"
    by (simp add: startswith_def)
  have "re_search ?free = None"
    by (simp add: match_here_def startswith_def)
  then have f3: "\<not> (\<exists>g. fenced ?free g)"
    by (rule iffD1 [OF re_search_None])
  show ?thesis
    using response_parser_cases
        [OF example_accepted example_save example_ocr example_long example_answer b1,
          where loads1 = ?loads]
      response_parser_cases
        [OF example_accepted example_save example_ocr example_long example_answer k1,
          where loads1 = ?loads]
      response_parser_cases
        [OF example_accepted example_save example_ocr example_long example_answer f1,
          where loads1 = ?loads]
      b2 k2 k3 f2 f3
    by (simp add: example_loads)
qed

section \<open>Normalisation collapses and trims\<close>

lemma collapse_runs_keeps:
  "\<not> isspace c \<Longrightarrow> collapse_runs (c # xs) = c # collapse_runs xs"
  by (cases xs) simp_all

lemma collapse_runs_word:
  "list_all (\<lambda>c. \<not> isspace c) w \<Longrightarrow> collapse_runs (w @ r) = w @ collapse_runs r"
  by (induction w) (simp_all add: collapse_runs_keeps)

lemma collapse_runs_all_space:
  "list_all isspace ws \<Longrightarrow> collapse_runs ws = (if ws = [] then [] else '' '')"
  by (induction ws rule: collapse_runs.induct) simp_all

lemma collapse_runs_leading:
  "list_all isspace ws \<Longrightarrow> \<not> isspace c \<Longrightarrow>
     collapse_runs (ws @ c # r) = (if ws = [] then [] else '' '') @ collapse_runs (c # r)"
proof (induction ws)
  case Nil
  then show ?case by simp
next
  case (Cons a ws)
  then show ?case by (cases ws) simp_all
qed

lemma py_strip_all_space:
  assumes "list_all isspace x"
  shows "py_strip x = []"
proof -
  have "dropWhile isspace x = []"
    using assms by (simp add: list_all_iff)
  then show ?thesis
    by (simp only: py_strip_def rev.simps dropWhile.simps)
qed

lemma py_strip_around:
  assumes "list_all isspace l" and "list_all isspace t"
    and "j \<noteq> []" and "\<not> isspace (hd j)" and "\<not> isspace (last j)"
  shows "py_strip (l @ j @ t) = j"
proof -
  obtain c cs where j: "j = c # cs" using assms(3) by (cases j) auto
  obtain ys y where j': "j = ys @ [y]" using assms(3) by (cases j rule: rev_cases) auto
  have c: "\<not> isspace c" using assms(4) j by simp
  have y: "\<not> isspace y" using assms(5) j' by simp
  have "dropWhile isspace (l @ j @ t) = j @ t"
    using assms(1) c by (simp add: j list_all_iff dropWhile_append)
  moreover have "dropWhile isspace (rev (j @ t)) = rev j"
    using assms(2) y by (simp add: j' list_all_iff dropWhile_append)
  ultimately show ?thesis by (simp add: py_strip_def)
qed

lemma collapse_runs_clean_text:
  "\<exists>t. list_all isspace t
     \<and> collapse_runs s = (if s \<noteq> [] \<and> isspace (hd s) then '' '' else []) @ clean_text s @ t"
proof (induction s rule: py_split.induct)
  case (1 s)
  let ?lead = "\<lambda>s. if s \<noteq> [] \<and> isspace (hd s) then '' '' else []"
  show ?case
  proof (cases "dropWhile isspace s")
    case Nil
    then have all: "list_all isspace s"
      by (simp add: list_all_iff)
    have "py_split s = []"
      by (subst py_split.simps) (simp only: Nil list.case)
    then have "clean_text s = []"
      by (simp add: clean_text_def)
    moreover have "collapse_runs s = ?lead s"
      using all collapse_runs_all_space [OF all] by (cases s) auto
    ultimately have "list_all isspace [] \<and> collapse_runs s = ?lead s @ clean_text s @ []"
      by simp
    then show ?thesis by blast
  next
    case (Cons c cs)
    let ?w = "c # takeWhile (\<lambda>x. \<not> isspace x) cs"
    let ?rest = "dropWhile (\<lambda>x. \<not> isspace x) cs"
    obtain ws where s: "s = ws @ c # cs" and ws: "list_all isspace ws"
      using space_then_rest [OF Cons] by blast
    have "dropWhile isspace s \<noteq> []"
      by (simp only: Cons) simp
    then have "\<not> isspace (hd (dropWhile isspace s))"
      by (rule hd_dropWhile)
    then have c: "\<not> isspace c"
      unfolding Cons by simp
    have w: "list_all (\<lambda>c. \<not> isspace c) ?w"
      using c by (auto simp: list_all_iff dest: set_takeWhileD)
    have lead: "?lead s = (if ws = [] then [] else '' '')"
      using s ws c by (cases ws) auto
    have split: "py_split s = ?w # py_split ?rest"
      by (subst py_split.simps) (simp only: Cons list.case)
    have "c # cs = ?w @ ?rest"
      by simp
    then have word: "collapse_runs (c # cs) = ?w @ collapse_runs ?rest"
      using collapse_runs_word [OF w, of ?rest] by simp
    have "collapse_runs s = (if ws = [] then [] else '' '') @ collapse_runs (c # cs)"
      unfolding s using ws c by (rule collapse_runs_leading)
    then have col: "collapse_runs s = ?lead s @ ?w @ collapse_runs ?rest"
      by (simp only: lead word)
    from "1.IH" [OF Cons] obtain t where t: "list_all isspace t"
      and ih: "collapse_runs ?rest = ?lead ?rest @ clean_text ?rest @ t"
      by blast
    show ?thesis
    proof (cases "py_split ?rest = []")
      case True
      then have "clean_text s = ?w" "clean_text ?rest = []"
        by (simp_all add: clean_text_def split)
      with col ih t have "list_all isspace (?lead ?rest @ t)
          \<and> collapse_runs s = ?lead s @ clean_text s @ (?lead ?rest @ t)"
        by simp
      then show ?thesis by blast
    next
      case False
      then obtain v vs where v: "py_split ?rest = v # vs"
        by (cases "py_split ?rest") auto
      then have ct: "clean_text s = ?w @ '' '' @ clean_text ?rest"
        by (simp add: clean_text_def split)
      have "?rest \<noteq> []"
      proof
        assume "?rest = []"
        then have "py_split ?rest = []" by (simp only: py_split_Nil)
        with False show False by simp
      qed
      then have "\<not> \<not> isspace (hd ?rest)"
        by (rule hd_dropWhile)
      with \<open>?rest \<noteq> []\<close> have "?lead ?rest = '' ''"
        by simp
      with col ih have "collapse_runs s = ?lead s @ clean_text s @ t"
        by (simp add: ct)
      with t show ?thesis by blast
    qed
  qed
qed

text \<open>
  C7, as the code has it. \<open>clean_text\<close> gives what collapsing every run of whitespace
  into one space gives, with the whitespace at both ends of that taken away: a run between
  two words becomes a single space, a run before the first word or after the last one
  goes. It is idempotent, and its result splits into the words of the text, each of them
  non-empty and free of whitespace.
\<close>

theorem clean_text_collapses_and_trims:
  "clean_text s = py_strip (collapse_runs s)
   \<and> clean_text (clean_text s) = clean_text s
   \<and> py_split (clean_text s) = py_split s
   \<and> list_all word_ok (py_split s)"
proof -
  obtain t where t: "list_all isspace t"
    and col: "collapse_runs s = (if s \<noteq> [] \<and> isspace (hd s) then '' '' else []) @ clean_text s @ t"
    using collapse_runs_clean_text [of s] by blast
  have lead: "list_all isspace (if s \<noteq> [] \<and> isspace (hd s) then '' '' else [])"
    by simp
  have "py_strip (collapse_runs s) = clean_text s"
  proof (cases "py_split s = []")
    case True
    then have "clean_text s = []"
      by (simp add: clean_text_def)
    moreover from this col t lead have "list_all isspace (collapse_runs s)"
      by simp
    ultimately show ?thesis
      by (simp add: py_strip_all_space)
  next
    case False
    from py_join_ends [OF py_split_words_ok False]
    have "clean_text s \<noteq> []" "\<not> isspace (hd (clean_text s))" "\<not> isspace (last (clean_text s))"
      by (simp_all add: clean_text_def)
    from py_strip_around [OF lead t this] show ?thesis
      by (simp only: col)
  qed
  then show ?thesis
    by (simp add: clean_text_def py_split_join py_split_words_ok)
qed

text \<open>
  C7, as the specification words it, turns every run into one space. The text OCR gives for
  a page that reads \<open>ab\<close> ends with a line feed; collapsing that run would leave a space
  at the end, and \<open>clean_text\<close> leaves none.
\<close>

theorem trailing_line_feed_is_dropped:
  "collapse_runs ''ab\<newline>'' = ''ab ''
   \<and> clean_text ''ab\<newline>'' = ''ab''
   \<and> clean_text ''ab\<newline>'' \<noteq> collapse_runs ''ab\<newline>''"
  by (simp add: text_defs)

end
